theory Spec2Isabelle
  imports Main "HOL-Library.Signed_Division"
begin

section \<open>The data model of \<open>gh::BigInteger\<close>\<close>

text \<open>
  \<^verbatim>\<open>const auto BASE = 10;\<close>,
  \<^verbatim>\<open>enum class Sign { POSITIVE, NEGATIVE };\<close> and the two private members
  \<^verbatim>\<open>Sign m_sign; vector<char> m_data;\<close>. The vector holds one character per decimal
  digit, least significant digit first.
\<close>

definition BASE :: int where
  "BASE = 10"

datatype Sign = POSITIVE | NEGATIVE

record BigInteger =
  m_sign :: Sign
  m_data :: "char list"

text \<open>
  The only failure of the class: \<^verbatim>\<open>throw "Invalid position : " + std::to_string(pos);\<close>
  in \<^verbatim>\<open>change_digit\<close>. The thrown text is determined by the position, which is what the
  error value carries.
\<close>

datatype error = Invalid_position int

subsection \<open>Native integers and characters\<close>

text \<open>
  A native \<^verbatim>\<open>int\<close> has 32 bits. The sums, products and indices inside the digit loops stay
  far from the bounds and are plain integers; the one place where the bound matters is
  \<^verbatim>\<open>num *= -1\<close> in the constructor, written with the two's complement wrap-around
  (the overflow itself is undefined in C++; wrapping is what the usual targets do).
  Division and remainder of native integers truncate towards zero: \<open>sdiv\<close>, \<open>smod\<close>.
\<close>

definition int32 :: "int \<Rightarrow> int" where
  "int32 x = (x + 2147483648) mod 4294967296 - 2147483648"

text \<open>
  A \<^verbatim>\<open>char\<close> is one byte, read as a signed value when it is promoted to \<^verbatim>\<open>int\<close>
  (\<^verbatim>\<open>m_data[pos] - '0'\<close>) and cut to its low byte when an \<^verbatim>\<open>int\<close> is converted to it
  (\<^verbatim>\<open>char(val + '0')\<close>). The character \<^verbatim>\<open>'0'\<close> is 48.
\<close>

definition char_to_int :: "char \<Rightarrow> int" where
  "char_to_int c = (let u = of_char c in if u < 128 then u else u - 256)"

definition int_to_char :: "int \<Rightarrow> char" where
  "int_to_char v = char_of v"

subsection \<open>The private accessors\<close>

definition is_positive :: "BigInteger \<Rightarrow> bool" where
  "is_positive this = (m_sign this = POSITIVE)"

definition is_negative :: "BigInteger \<Rightarrow> bool" where
  "is_negative this = (m_sign this = NEGATIVE)"

definition count :: "BigInteger \<Rightarrow> int" where
  "count this = int (length (m_data this))"

definition push_digit :: "BigInteger \<Rightarrow> int \<Rightarrow> BigInteger" where
  "push_digit this val = this\<lparr>m_data := m_data this @ [int_to_char (val + 48)]\<rparr>"

definition change_digit :: "BigInteger \<Rightarrow> int \<Rightarrow> int \<Rightarrow> error + BigInteger" where
  "change_digit this pos val =
     (let len = count this
      in if 0 \<le> pos \<and> pos < len
         then Inr (this\<lparr>m_data := (m_data this)[nat pos := int_to_char (val + 48)]\<rparr>)
         else Inl (Invalid_position pos))"

definition get_digit :: "BigInteger \<Rightarrow> int \<Rightarrow> int" where
  "get_digit this pos =
     (let len = count this
      in if 0 \<le> pos \<and> pos < len then char_to_int (m_data this ! nat pos) - 48 else 0)"

subsection \<open>Rendering and normalisation\<close>

text \<open>
  \<^verbatim>\<open>for (auto i = len - 1; i >= 0; --i) res.push_back(char(get_digit(i) + '0'));\<close>
  The counter of the model is \<open>i + 1\<close>, so that it stops at 0.
\<close>

fun to_string_loop :: "BigInteger \<Rightarrow> nat \<Rightarrow> string \<Rightarrow> string" where
  "to_string_loop this 0 res = res"
| "to_string_loop this (Suc i) res =
     to_string_loop this i (res @ [int_to_char (get_digit this (int i) + 48)])"

definition to_string :: "BigInteger \<Rightarrow> string" where
  "to_string this =
     (let res = (if is_negative this then [CHR ''-''] else []);
          len = count this;
          res = to_string_loop this (nat len) res
      in if length res \<noteq> 0 then res else ''0'')"

text \<open>
  \<^verbatim>\<open>for (int i = len - 1; i >= 0; --i) { if (get_digit(i) != 0) break;
       else { if (m_data.size()) m_data.pop_back(); } }\<close>
\<close>

fun normalize_loop :: "nat \<Rightarrow> BigInteger \<Rightarrow> BigInteger" where
  "normalize_loop 0 this = this"
| "normalize_loop (Suc i) this =
     (if get_digit this (int i) \<noteq> 0 then this
      else normalize_loop i
             (if length (m_data this) \<noteq> 0 then this\<lparr>m_data := butlast (m_data this)\<rparr>
              else this))"

definition normalize :: "BigInteger \<Rightarrow> BigInteger" where
  "normalize this = (let len = count this in normalize_loop (nat len) this)"

subsection \<open>Comparison\<close>

text \<open>\<^verbatim>\<open>for (auto i = 0; i < l_size; ++i) if (get_digit(i) != rhs.get_digit(i)) return false;\<close>\<close>

fun equal_loop :: "BigInteger \<Rightarrow> BigInteger \<Rightarrow> nat \<Rightarrow> nat \<Rightarrow> bool" where
  "equal_loop this rhs i 0 = True"
| "equal_loop this rhs i (Suc k) =
     (if get_digit this (int i) \<noteq> get_digit rhs (int i) then False
      else equal_loop this rhs (Suc i) k)"

definition equal_to :: "BigInteger \<Rightarrow> BigInteger \<Rightarrow> bool" where
  "equal_to this rhs =
     (let l_size = count this; r_size = count rhs;
          l_sign = m_sign this; r_sign = m_sign rhs
      in if l_size \<noteq> r_size \<or> l_sign \<noteq> r_sign then False
         else equal_loop this rhs 0 (nat l_size))"

text \<open>
  \<^verbatim>\<open>for (auto i = l_size - 1; i >= 0; --i) { ... }\<close>, again with the counter \<open>i + 1\<close>.
\<close>

fun less_than_loop :: "BigInteger \<Rightarrow> BigInteger \<Rightarrow> nat \<Rightarrow> bool" where
  "less_than_loop this rhs 0 = False"
| "less_than_loop this rhs (Suc i) =
     (if get_digit this (int i) < get_digit rhs (int i) then is_positive this
      else if get_digit this (int i) > get_digit rhs (int i) then is_negative this
      else less_than_loop this rhs i)"

definition less_than :: "BigInteger \<Rightarrow> BigInteger \<Rightarrow> bool" where
  "less_than this rhs =
     (let l_size = count this; r_size = count rhs;
          l_sign = m_sign this; r_sign = m_sign rhs
      in if l_sign \<noteq> r_sign then is_negative this
         else if l_size \<noteq> r_size
         then (l_size < r_size \<and> is_positive this) \<or> (l_size > r_size \<and> is_negative this)
         else less_than_loop this rhs (nat l_size))"

text \<open>The six relational operators, as the friend functions define them.\<close>

definition op_eq :: "BigInteger \<Rightarrow> BigInteger \<Rightarrow> bool" where
  "op_eq lhs rhs = equal_to lhs rhs"

definition op_ne :: "BigInteger \<Rightarrow> BigInteger \<Rightarrow> bool" where
  "op_ne lhs rhs = (\<not> op_eq lhs rhs)"

definition op_lt :: "BigInteger \<Rightarrow> BigInteger \<Rightarrow> bool" where
  "op_lt lhs rhs = less_than lhs rhs"

definition op_le :: "BigInteger \<Rightarrow> BigInteger \<Rightarrow> bool" where
  "op_le lhs rhs = (op_eq lhs rhs \<or> op_lt lhs rhs)"

definition op_gt :: "BigInteger \<Rightarrow> BigInteger \<Rightarrow> bool" where
  "op_gt lhs rhs = op_lt rhs lhs"

text \<open>\<^verbatim>\<open>return (lhs == rhs) || (rhs > rhs);\<close>\<close>

definition op_ge :: "BigInteger \<Rightarrow> BigInteger \<Rightarrow> bool" where
  "op_ge lhs rhs = (op_eq lhs rhs \<or> op_gt rhs rhs)"

section \<open>Construction\<close>

text \<open>
  \<^verbatim>\<open>BigInteger(int num)\<close>: the loop
  \<^verbatim>\<open>while (num) { const auto rem = num % BASE; push_digit(rem); num /= 10; }\<close>
  ends because the truncating division brings \<open>num\<close> closer to zero.
\<close>

function from_int_loop :: "int \<Rightarrow> BigInteger \<Rightarrow> BigInteger" where
  "from_int_loop num this =
     (if num \<noteq> 0 then from_int_loop (num sdiv 10) (push_digit this (num smod BASE))
      else this)"
  by pat_completeness auto
termination
proof (relation "measure (\<lambda>(num, this). nat \<bar>num\<bar>)")
  show "wf (measure (\<lambda>(num, this). nat \<bar>num\<bar>))"
    by simp
next
  fix num :: int and this :: BigInteger
  assume nz: "num \<noteq> 0"
  have "\<bar>num sdiv 10\<bar> = \<bar>num\<bar> div 10"
    by (cases "num = 0"; cases "num < 0")
       (simp_all add: signed_divide_int_def sgn_if abs_mult)
  moreover have "\<bar>num\<bar> div 10 < \<bar>num\<bar>"
    using nz by linarith
  ultimately have "nat \<bar>num sdiv 10\<bar> < nat \<bar>num\<bar>"
    by linarith
  then show "((num sdiv 10, push_digit this (num smod BASE)), (num, this))
      \<in> measure (\<lambda>(num, this). nat \<bar>num\<bar>)"
    by (simp only: in_measure prod.case)
qed

definition BigInteger_default :: BigInteger where
  "BigInteger_default = \<lparr>m_sign = POSITIVE, m_data = []\<rparr>"

definition BigInteger_int :: "int \<Rightarrow> BigInteger" where
  "BigInteger_int num =
     (let this = \<lparr>m_sign = POSITIVE, m_data = []\<rparr>
      in if num < 0
         then from_int_loop (int32 (num * (- 1))) (this\<lparr>m_sign := NEGATIVE\<rparr>)
         else from_int_loop num this)"

text \<open>
  \<^verbatim>\<open>parse\<close> reads a C string, which ends at the first NUL (\<^verbatim>\<open>strlen\<close>); it sets the sign
  as a side effect and returns the characters that are not \<^verbatim>\<open>'_'\<close>.
\<close>

definition c_str :: "string \<Rightarrow> string" where
  "c_str s = takeWhile (\<lambda>c. c \<noteq> char_of (0::nat)) s"

fun parse_loop :: "string \<Rightarrow> char list \<Rightarrow> char list" where
  "parse_loop [] res = res"
| "parse_loop (c # cs) res =
     (if c = CHR ''_'' then parse_loop cs res else parse_loop cs (res @ [c]))"

definition parse :: "BigInteger \<Rightarrow> string \<Rightarrow> BigInteger \<times> char list" where
  "parse this str =
     (case str of
        c # cs \<Rightarrow>
          if c = CHR ''-'' then (this\<lparr>m_sign := NEGATIVE\<rparr>, parse_loop cs [])
          else (this, parse_loop str [])
      | [] \<Rightarrow> (this, parse_loop str []))"

text \<open>
  \<^verbatim>\<open>for (int i = filtered.size() - 1; i >= 0; --i) {
       const auto digit = filtered[i] - '0'; push_digit(digit); }\<close>
\<close>

fun from_text_loop :: "char list \<Rightarrow> nat \<Rightarrow> BigInteger \<Rightarrow> BigInteger" where
  "from_text_loop filtered 0 this = this"
| "from_text_loop filtered (Suc i) this =
     from_text_loop filtered i (push_digit this (char_to_int (filtered ! i) - 48))"

definition BigInteger_cstr :: "string \<Rightarrow> BigInteger" where
  "BigInteger_cstr num =
     (let this = \<lparr>m_sign = POSITIVE, m_data = []\<rparr>;
          (this, filtered) = parse this (c_str num)
      in from_text_loop filtered (length filtered) this)"

definition BigInteger_string :: "string \<Rightarrow> BigInteger" where
  "BigInteger_string num =
     (let this = \<lparr>m_sign = POSITIVE, m_data = []\<rparr>;
          (this, filtered) = parse this (c_str num)
      in from_text_loop filtered (length filtered) this)"

section \<open>The arithmetic engine\<close>

subsection \<open>The digit loops\<close>

text \<open>
  The same-sign branch of \<^verbatim>\<open>operator+=\<close>:
  \<^verbatim>\<open>for (int i = 0; i < std::max(l_size, r_size); ++i) {
       sum = get_digit(i) + rhs.get_digit(i) + carry;
       carry = sum / BASE; sum = sum % BASE;
       if (i < l_size) change_digit(i, sum); else push_digit(sum); }
   if (carry) push_digit(carry);\<close>
  The loops count upwards: \<open>i\<close> is the index, \<open>k\<close> the number of rounds left.
\<close>

fun add_loop ::
  "BigInteger \<Rightarrow> int \<Rightarrow> nat \<Rightarrow> nat \<Rightarrow> BigInteger \<Rightarrow> int \<Rightarrow> error + BigInteger \<times> int" where
  "add_loop rhs l_size i 0 this carry = Inr (this, carry)"
| "add_loop rhs l_size i (Suc k) this carry =
     (let sum = get_digit this (int i) + get_digit rhs (int i) + carry;
          carry = sum sdiv BASE;
          sum = sum smod BASE
      in case (if int i < l_size then change_digit this (int i) sum
               else Inr (push_digit this sum)) of
           Inl e \<Rightarrow> Inl e
         | Inr this \<Rightarrow> add_loop rhs l_size (Suc i) k this carry)"

definition add_digits :: "BigInteger \<Rightarrow> BigInteger \<Rightarrow> error + BigInteger" where
  "add_digits this rhs =
     (let l_size = count this; r_size = count rhs
      in case add_loop rhs l_size 0 (nat (max l_size r_size)) this 0 of
           Inl e \<Rightarrow> Inl e
         | Inr (this, carry) \<Rightarrow> Inr (if carry \<noteq> 0 then push_digit this carry else this))"

text \<open>
  The last branch of \<^verbatim>\<open>operator-=\<close>:
  \<^verbatim>\<open>for (int i = 0; i < count(); ++i) {
       diff = get_digit(i) - rhs.get_digit(i) - borrow; borrow = 0;
       if (diff < 0) { diff += 10; borrow = 1; }
       change_digit(i, diff); }
   normalize();\<close>
  \<^verbatim>\<open>change_digit\<close> keeps the length, so \<^verbatim>\<open>count()\<close> is the same in every round.
\<close>

fun sub_loop ::
  "BigInteger \<Rightarrow> nat \<Rightarrow> nat \<Rightarrow> BigInteger \<Rightarrow> int \<Rightarrow> error + BigInteger" where
  "sub_loop rhs i 0 this borrow = Inr this"
| "sub_loop rhs i (Suc k) this borrow =
     (let diff = get_digit this (int i) - get_digit rhs (int i) - borrow;
          borrow = 0;
          (diff, borrow) = (if diff < 0 then (diff + 10, 1) else (diff, borrow))
      in case change_digit this (int i) diff of
           Inl e \<Rightarrow> Inl e
         | Inr this \<Rightarrow> sub_loop rhs (Suc i) k this borrow)"

definition sub_digits :: "BigInteger \<Rightarrow> BigInteger \<Rightarrow> error + BigInteger" where
  "sub_digits this rhs =
     (case sub_loop rhs 0 (nat (count this)) this 0 of
        Inl e \<Rightarrow> Inl e
      | Inr this \<Rightarrow> Inr (normalize this))"

text \<open>
  The fast path of \<^verbatim>\<open>operator*=(const int &)\<close>:
  \<^verbatim>\<open>bool negate_it = false;
   if (this->is_negative() && num > 0) negate_it = true;
   int product = 0; int carry = 0; int len = count();
   for (int i = 0; i < len; ++i) {
       product = num * get_digit(i) + carry;
       carry = product / BASE;
       this->change_digit(i, product % BASE); }
   if (carry) push_digit(carry);
   if (negate_it) this->m_sign = Sign::NEGATIVE;\<close>
\<close>

fun scalar_loop ::
  "int \<Rightarrow> nat \<Rightarrow> nat \<Rightarrow> BigInteger \<Rightarrow> int \<Rightarrow> error + BigInteger \<times> int" where
  "scalar_loop num i 0 this carry = Inr (this, carry)"
| "scalar_loop num i (Suc k) this carry =
     (let product = num * get_digit this (int i) + carry;
          carry = product sdiv BASE
      in case change_digit this (int i) (product smod BASE) of
           Inl e \<Rightarrow> Inl e
         | Inr this \<Rightarrow> scalar_loop num (Suc i) k this carry)"

definition scalar_digits :: "BigInteger \<Rightarrow> int \<Rightarrow> error + BigInteger" where
  "scalar_digits this num =
     (let negate_it = (is_negative this \<and> num > 0);
          len = count this
      in case scalar_loop num 0 (nat len) this 0 of
           Inl e \<Rightarrow> Inl e
         | Inr (this, carry) \<Rightarrow>
             (let this = (if carry \<noteq> 0 then push_digit this carry else this)
              in Inr (if negate_it then this\<lparr>m_sign := NEGATIVE\<rparr> else this)))"

subsection \<open>The operators that call each other\<close>

text \<open>
  \<^verbatim>\<open>operator+=\<close>, \<^verbatim>\<open>operator-=\<close> and the two \<^verbatim>\<open>operator*=\<close> call one another, and nothing
  in the source bounds the depth of these calls. The model therefore carries a bound
  \<open>n\<close> on the depth: every operator gives its callees one less, and \<open>None\<close> is the
  answer of a call that would need more. An operation returns iff some bound gives
  \<open>Some\<close>; it recurses for ever iff every bound gives \<open>None\<close>. \<open>Some (Inl e)\<close> is the
  exception of \<^verbatim>\<open>change_digit\<close> passing through. The local \<^verbatim>\<open>sum\<close> of
  \<^verbatim>\<open>operator*=\<close> is \<open>sum_acc\<close> in its loop.

  The binary operators copy their left operand and apply the compound assignment to the
  copy (\<^verbatim>\<open>auto res = *this; res -= rhs; return res;\<close>), so on values \<^verbatim>\<open>rhs * -1\<close> is
  \<open>times_assign_int n rhs (- 1)\<close> and \<^verbatim>\<open>rhs - *this\<close> is \<open>minus_assign n rhs this\<close>.
  The functions below are the bodies for two distinct objects; the address tests
  \<^verbatim>\<open>this == &rhs\<close> at the head of \<^verbatim>\<open>operator+=\<close> and \<^verbatim>\<open>operator-=\<close> are in
  \<open>op_plus_assign\<close> and \<open>op_minus_assign\<close> further down. Every operand the operators
  pass to each other is a temporary, never the object itself.
\<close>

type_synonym 'a result = "(error + 'a) option"

fun plus_assign :: "nat \<Rightarrow> BigInteger \<Rightarrow> BigInteger \<Rightarrow> BigInteger result"
and minus_assign :: "nat \<Rightarrow> BigInteger \<Rightarrow> BigInteger \<Rightarrow> BigInteger result"
and times_assign :: "nat \<Rightarrow> BigInteger \<Rightarrow> BigInteger \<Rightarrow> BigInteger result"
and times_loop ::
  "nat \<Rightarrow> BigInteger \<Rightarrow> nat \<Rightarrow> nat \<Rightarrow> BigInteger \<Rightarrow> BigInteger \<Rightarrow> (BigInteger \<times> BigInteger) result"
and times_assign_int :: "nat \<Rightarrow> BigInteger \<Rightarrow> int \<Rightarrow> BigInteger result"
where
  "plus_assign 0 this rhs = None"
| "plus_assign (Suc n) this rhs =
     (if is_positive this \<noteq> is_positive rhs then
        (case times_assign_int n rhs (- 1) of
           None \<Rightarrow> None
         | Some (Inl e) \<Rightarrow> Some (Inl e)
         | Some (Inr negated) \<Rightarrow> minus_assign n this negated)
      else Some (add_digits this rhs))"
| "minus_assign 0 this rhs = None"
| "minus_assign (Suc n) this rhs =
     (if is_negative this \<noteq> is_negative rhs then
        (case times_assign_int n rhs (- 1) of
           None \<Rightarrow> None
         | Some (Inl e) \<Rightarrow> Some (Inl e)
         | Some (Inr negated) \<Rightarrow> plus_assign n this negated)
      else if (is_positive this \<and> op_lt this rhs) \<or> (is_negative this \<and> op_gt this rhs) then
        (case minus_assign n rhs this of
           None \<Rightarrow> None
         | Some (Inl e) \<Rightarrow> Some (Inl e)
         | Some (Inr this) \<Rightarrow>
             Some (Inr (if is_positive this then this\<lparr>m_sign := NEGATIVE\<rparr>
                        else this\<lparr>m_sign := POSITIVE\<rparr>)))
      else Some (sub_digits this rhs))"
| "times_assign 0 this rhs = None"
| "times_assign (Suc n) this rhs =
     (let negate_it = (m_sign this \<noteq> m_sign rhs);
          lhs = this;
          sum = BigInteger_int 0;
          len = count rhs
      in case times_loop n rhs 0 (nat len) sum lhs of
           None \<Rightarrow> None
         | Some (Inl e) \<Rightarrow> Some (Inl e)
         | Some (Inr (sum, lhs)) \<Rightarrow>
             Some (Inr (if negate_it then sum\<lparr>m_sign := NEGATIVE\<rparr> else sum)))"
| "times_loop n rhs i 0 sum_acc lhs = Some (Inr (sum_acc, lhs))"
| "times_loop n rhs i (Suc k) sum_acc lhs =
     (case times_assign_int n lhs (get_digit rhs (int i)) of
        None \<Rightarrow> None
      | Some (Inl e) \<Rightarrow> Some (Inl e)
      | Some (Inr product) \<Rightarrow>
          (case plus_assign n sum_acc product of
             None \<Rightarrow> None
           | Some (Inl e) \<Rightarrow> Some (Inl e)
           | Some (Inr sum_acc) \<Rightarrow>
               (case times_assign_int n lhs 10 of
                  None \<Rightarrow> None
                | Some (Inl e) \<Rightarrow> Some (Inl e)
                | Some (Inr lhs) \<Rightarrow> times_loop n rhs (Suc i) k sum_acc lhs)))"
| "times_assign_int 0 this num = None"
| "times_assign_int (Suc n) this num =
     (if num = 0 then Some (Inr (BigInteger_int 0))
      else if num = 1 then Some (Inr this)
      else if BASE < num \<or> num < 0 then times_assign n this (BigInteger_int num)
      else Some (scalar_digits this num))"

subsection \<open>The public operators\<close>

text \<open>
  The right operand of a compound assignment is the object itself or another object;
  \<^verbatim>\<open>operator+=\<close> and \<^verbatim>\<open>operator-=\<close> test which
  (\<^verbatim>\<open>if (this == &rhs) { *this *= 2; return *this; }\<close> and
  \<^verbatim>\<open>if (this == &rhs) { *this = 0; return *this; }\<close>). \<^verbatim>\<open>operator*=\<close> reads \<open>rhs\<close>
  while it builds the product in locals and writes \<^verbatim>\<open>*this\<close> last, so on the object
  itself it computes what it computes on a copy.
\<close>

datatype operand = This | Other BigInteger

definition op_plus_assign :: "nat \<Rightarrow> BigInteger \<Rightarrow> operand \<Rightarrow> BigInteger result" where
  "op_plus_assign n this rhs =
     (case rhs of This \<Rightarrow> times_assign_int n this 2 | Other b \<Rightarrow> plus_assign n this b)"

definition op_minus_assign :: "nat \<Rightarrow> BigInteger \<Rightarrow> operand \<Rightarrow> BigInteger result" where
  "op_minus_assign n this rhs =
     (case rhs of This \<Rightarrow> Some (Inr (BigInteger_int 0)) | Other b \<Rightarrow> minus_assign n this b)"

definition op_times_assign :: "nat \<Rightarrow> BigInteger \<Rightarrow> operand \<Rightarrow> BigInteger result" where
  "op_times_assign n this rhs =
     (case rhs of This \<Rightarrow> times_assign n this this | Other b \<Rightarrow> times_assign n this b)"

definition op_times_assign_int :: "nat \<Rightarrow> BigInteger \<Rightarrow> int \<Rightarrow> BigInteger result" where
  "op_times_assign_int n this num = times_assign_int n this num"

text \<open>
  The binary operators work on a copy of the left operand
  (\<^verbatim>\<open>auto res = *this; res += rhs; return res;\<close>), which is never the right operand.
\<close>

definition op_plus :: "nat \<Rightarrow> BigInteger \<Rightarrow> BigInteger \<Rightarrow> BigInteger result" where
  "op_plus n this rhs = plus_assign n this rhs"

definition op_minus :: "nat \<Rightarrow> BigInteger \<Rightarrow> BigInteger \<Rightarrow> BigInteger result" where
  "op_minus n this rhs = minus_assign n this rhs"

definition op_times :: "nat \<Rightarrow> BigInteger \<Rightarrow> BigInteger \<Rightarrow> BigInteger result" where
  "op_times n this rhs = times_assign n this rhs"

definition op_times_int :: "nat \<Rightarrow> BigInteger \<Rightarrow> int \<Rightarrow> BigInteger result" where
  "op_times_int n this num = times_assign_int n this num"

section \<open>The vocabulary of the properties\<close>

text \<open>
  A result that is the exception of \<^verbatim>\<open>change_digit\<close>.
\<close>

definition throws :: "'a result \<Rightarrow> bool" where
  "throws r = (case r of Some (Inl e) \<Rightarrow> True | _ \<Rightarrow> False)"

text \<open>
  The number a digit sequence stands for: every stored character read as
  \<^verbatim>\<open>get_digit\<close> reads it, the first one least significant. The numeric value of an
  object adds its sign.
\<close>

definition digit_ok :: "char \<Rightarrow> bool" where
  "digit_ok c = (0 \<le> char_to_int c - 48 \<and> char_to_int c - 48 \<le> 9)"

fun magnitude :: "char list \<Rightarrow> int" where
  "magnitude [] = 0"
| "magnitude (c # cs) = (char_to_int c - 48) + 10 * magnitude cs"

definition numeric_value :: "BigInteger \<Rightarrow> int" where
  "numeric_value this =
     (if is_negative this then - magnitude (m_data this) else magnitude (m_data this))"

definition digits_in_range :: "BigInteger \<Rightarrow> bool" where
  "digits_in_range this = list_all digit_ok (m_data this)"

text \<open>
  No leading zero: the sequence is empty or its most significant digit, the last
  element, is not 0.
\<close>

definition normalized :: "BigInteger \<Rightarrow> bool" where
  "normalized this =
     (if m_data this = [] then True else get_digit this (count this - 1) \<noteq> 0)"

text \<open>
  The canonical decimal text of an integer: \<open>-\<close> first iff it is negative, then the
  decimal digits of its absolute value, most significant first; \<open>0\<close> for zero.
\<close>

fun decimal_digits :: "nat \<Rightarrow> string" where
  "decimal_digits n =
     (if n < 10 then [char_of (48 + n)]
      else decimal_digits (n div 10) @ [char_of (48 + n mod 10)])"

definition decimal_text :: "int \<Rightarrow> string" where
  "decimal_text n =
     (if n < 0 then CHR ''-'' # decimal_digits (nat (- n)) else decimal_digits (nat n))"

declare decimal_digits.simps [simp del]

declare from_int_loop.simps [simp del]

section \<open>Basic facts\<close>

lemma throws_simps [simp]:
  "throws None = False" "throws (Some (Inl e)) = True" "throws (Some (Inr x)) = False"
  by (simp_all add: throws_def)

lemma throws_Some: "throws (Some r) = isl r"
  by (cases r) simp_all

lemma throws_case:
  "throws (case x of None \<Rightarrow> None | Some (Inl e) \<Rightarrow> Some (Inl e) | Some (Inr v) \<Rightarrow> f v)
     = (throws x \<or> (\<exists>v. x = Some (Inr v) \<and> throws (f v)))"
  by (cases x) (simp_all split: sum.splits)

lemma change_digit_in_range:
  "0 \<le> pos \<Longrightarrow> pos < count this \<Longrightarrow>
   change_digit this pos v
     = Inr (this\<lparr>m_data := (m_data this)[nat pos := int_to_char (v + 48)]\<rparr>)"
  by (simp add: change_digit_def)

lemma count_change [simp]:
  "count (this\<lparr>m_data := (m_data this)[p := c]\<rparr>) = count this"
  by (simp add: count_def)

lemma count_push_digit [simp]: "count (push_digit this v) = count this + 1"
  by (simp add: count_def push_digit_def)

lemma get_digit_nth:
  "i < length (m_data this) \<Longrightarrow> get_digit this (int i) = char_to_int (m_data this ! i) - 48"
  by (simp add: get_digit_def count_def)

lemma sdiv_nonneg: "0 \<le> (x::int) \<Longrightarrow> x sdiv 10 = x div 10"
  by (cases "x = 0") (simp_all add: signed_divide_int_def sgn_if)

lemma smod_nonneg: "0 \<le> (x::int) \<Longrightarrow> x smod 10 = x mod 10"
  by (cases "x = 0") (simp_all add: signed_modulo_int_def sgn_if)

lemma char_round_trip:
  "0 \<le> v \<Longrightarrow> v \<le> 9 \<Longrightarrow> char_to_int (int_to_char (v + 48)) - 48 = v"
  by (simp add: char_to_int_def int_to_char_def Let_def)

lemma digit_ok_int_to_char: "0 \<le> v \<Longrightarrow> v \<le> 9 \<Longrightarrow> digit_ok (int_to_char (v + 48))"
  by (simp add: digit_ok_def char_round_trip)

lemma magnitude_append:
  "magnitude (xs @ ys) = magnitude xs + 10 ^ length xs * magnitude ys"
  by (induction xs) (simp_all add: algebra_simps)

subsection \<open>Values of the constructors used below\<close>

lemma BigInteger_int_0: "BigInteger_int 0 = \<lparr>m_sign = POSITIVE, m_data = []\<rparr>"
  by code_simp

lemma BigInteger_int_minus_1: "BigInteger_int (- 1) = \<lparr>m_sign = NEGATIVE, m_data = ''1''\<rparr>"
  by code_simp

lemma BigInteger_int_1: "BigInteger_int 1 = \<lparr>m_sign = POSITIVE, m_data = ''1''\<rparr>"
  by code_simp

lemma BigInteger_int_minus_3: "BigInteger_int (- 3) = \<lparr>m_sign = NEGATIVE, m_data = ''3''\<rparr>"
  by code_simp

lemma BigInteger_int_4: "BigInteger_int 4 = \<lparr>m_sign = POSITIVE, m_data = ''4''\<rparr>"
  by code_simp

lemma BigInteger_int_minus_4: "BigInteger_int (- 4) = \<lparr>m_sign = NEGATIVE, m_data = ''4''\<rparr>"
  by code_simp

lemma BigInteger_int_minus_5: "BigInteger_int (- 5) = \<lparr>m_sign = NEGATIVE, m_data = ''5''\<rparr>"
  by code_simp

section \<open>The digit loops write in range\<close>

text \<open>
  Every \<^verbatim>\<open>change_digit\<close> of the three digit loops is at an index below the length the
  vector has at that moment, so none of them takes the throwing branch.
\<close>

lemma add_loop_no_throw:
  "l_size \<le> count this \<Longrightarrow> \<not> isl (add_loop rhs l_size i k this carry)"
proof (induction k arbitrary: i this carry)
  case 0
  then show ?case by simp
next
  case (Suc k)
  show ?case
  proof (cases "int i < l_size")
    case True
    then have "int i < count this" using Suc.prems by simp
    then show ?thesis
      using True Suc.IH Suc.prems by (simp add: Let_def change_digit_in_range)
  next
    case False
    then show ?thesis
      using Suc.IH Suc.prems by (simp add: Let_def)
  qed
qed

lemma add_digits_no_throw: "\<not> isl (add_digits this rhs)"
proof -
  have "\<not> isl (add_loop rhs (count this) 0 (nat (max (count this) (count rhs))) this 0)"
    by (rule add_loop_no_throw) simp
  then show ?thesis
    by (auto simp: add_digits_def Let_def split: sum.splits prod.splits)
qed

lemma sub_loop_no_throw:
  "int i + int k \<le> count this \<Longrightarrow> \<not> isl (sub_loop rhs i k this borrow)"
proof (induction k arbitrary: i this borrow)
  case 0
  then show ?case by simp
next
  case (Suc k)
  then have "int i < count this" by simp
  then show ?case
    using Suc.IH Suc.prems by (simp add: Let_def change_digit_in_range split: prod.splits)
qed

lemma sub_digits_no_throw: "\<not> isl (sub_digits this rhs)"
proof -
  have "\<not> isl (sub_loop rhs 0 (nat (count this)) this 0)"
    by (rule sub_loop_no_throw) (simp add: count_def)
  then show ?thesis
    by (auto simp: sub_digits_def split: sum.splits)
qed

lemma scalar_loop_no_throw:
  "int i + int k \<le> count this \<Longrightarrow> \<not> isl (scalar_loop num i k this carry)"
proof (induction k arbitrary: i this carry)
  case 0
  then show ?case by simp
next
  case (Suc k)
  then have "int i < count this" by simp
  then show ?case
    using Suc.IH Suc.prems by (simp add: Let_def change_digit_in_range)
qed

lemma scalar_digits_no_throw: "\<not> isl (scalar_digits this num)"
proof -
  have "\<not> isl (scalar_loop num 0 (nat (count this)) this 0)"
    by (rule scalar_loop_no_throw) (simp add: count_def)
  then show ?thesis
    by (auto simp: scalar_digits_def Let_def split: sum.splits prod.splits)
qed

text \<open>
  The five mutually recursive operators only pass on what the digit loops return, so
  no bound on the depth makes any of them throw.
\<close>

lemma operators_no_throw:
  "\<not> throws (plus_assign n a b)"
  "\<not> throws (minus_assign n a b)"
  "\<not> throws (times_assign n a b)"
  "\<not> throws (times_loop n r i k s l)"
  "\<not> throws (times_assign_int n a num)"
proof (induction n a b and n a b and n a b and n r i k s l and n a num
       rule: plus_assign_minus_assign_times_assign_times_loop_times_assign_int.induct)
  case (1 this rhs)
  then show ?case by simp
next
  case (2 n this rhs)
  then show ?case
    by (auto simp: throws_case throws_Some add_digits_no_throw)
next
  case (3 this rhs)
  then show ?case by simp
next
  case (4 n this rhs)
  then show ?case
    by (auto simp: throws_case throws_Some sub_digits_no_throw)
next
  case (5 this rhs)
  then show ?case by simp
next
  case (6 n this rhs)
  then show ?case
    by (auto simp: throws_case Let_def split: prod.splits)
next
  case (7 n rhs i sum_acc lhs)
  then show ?case by simp
next
  case (8 n rhs i k sum_acc lhs)
  then show ?case
    by (auto simp: throws_case)
next
  case (9 this num)
  then show ?case by simp
next
  case (10 n this num)
  then show ?case
    by (auto simp: throws_Some scalar_digits_no_throw)
qed


section \<open>The fast path of the scalar multiplication\<close>

text \<open>
  With digits in 0..9, a factor \<open>num\<close> in 1..10 and a carry in 0..9 the product
  \<open>num * digit + carry\<close> is at most 99, so the carry stays in 0..9: one
  \<^verbatim>\<open>push_digit(carry)\<close> after the loop is enough, for 10 as well. The invariant of the
  loop is on the part of the digits from index \<open>i\<close> on.
\<close>

lemma scalar_step_bounds:
  assumes "0 \<le> d" "d \<le> 9" "0 \<le> carry" "carry \<le> 9" "0 < num" "num \<le> (10::int)"
  shows "0 \<le> num * d + carry" and "num * d + carry \<le> 99"
proof -
  show "0 \<le> num * d + carry" using assms by simp
  have "num * d \<le> 10 * 9"
    using assms by (intro mult_mono) simp_all
  then show "num * d + carry \<le> 99" using assms by simp
qed

lemma scalar_loop_correct:
  assumes "i + k = length (m_data this)"
    and "list_all digit_ok (m_data this)"
    and "0 \<le> carry" and "carry \<le> 9" and "0 < num" and "num \<le> 10"
  shows "\<exists>this' carry'.
           scalar_loop num i k this carry = Inr (this', carry')
         \<and> m_sign this' = m_sign this
         \<and> length (m_data this') = length (m_data this)
         \<and> take i (m_data this') = take i (m_data this)
         \<and> list_all digit_ok (m_data this')
         \<and> 0 \<le> carry' \<and> carry' \<le> 9
         \<and> magnitude (drop i (m_data this')) + 10 ^ k * carry'
             = num * magnitude (drop i (m_data this)) + carry"
  using assms
proof (induction k arbitrary: i this carry)
  case 0
  then show ?case by simp
next
  case (Suc k)
  let ?ds = "m_data this"
  let ?d = "get_digit this (int i)"
  let ?p = "num * ?d + carry"
  let ?this1 = "this\<lparr>m_data := ?ds[i := int_to_char (?p mod 10 + 48)]\<rparr>"
  have i_lt: "i < length ?ds" using Suc.prems(1) by simp
  have d_eq: "?d = char_to_int (?ds ! i) - 48"
    using i_lt by (rule get_digit_nth)
  have "digit_ok (?ds ! i)"
    using Suc.prems(2) i_lt by (simp add: list_all_length)
  then have d_range: "0 \<le> ?d" "?d \<le> 9"
    using d_eq by (simp_all add: digit_ok_def)
  have p_range: "0 \<le> ?p" "?p \<le> 99"
    using scalar_step_bounds [OF d_range Suc.prems(3,4,5,6)] by simp_all
  have c1_range: "0 \<le> ?p div 10" "?p div 10 \<le> 9"
    using p_range by linarith+
  have dg_range: "0 \<le> ?p mod 10" "?p mod 10 \<le> 9"
    by simp_all
  have step: "scalar_loop num i (Suc k) this carry = scalar_loop num (Suc i) k ?this1 (?p div 10)"
    using i_lt p_range
    by (simp add: Let_def BASE_def change_digit_in_range count_def sdiv_nonneg smod_nonneg)
  have ok1: "list_all digit_ok (m_data ?this1)"
    using Suc.prems(2) dg_range i_lt
    by (auto simp: list_all_length nth_list_update digit_ok_int_to_char)
  have len1: "Suc i + k = length (m_data ?this1)"
    using Suc.prems(1) by simp
  obtain this' carry' where
    run: "scalar_loop num (Suc i) k ?this1 (?p div 10) = Inr (this', carry')"
    and sg: "m_sign this' = m_sign ?this1"
    and len: "length (m_data this') = length (m_data ?this1)"
    and tk: "take (Suc i) (m_data this') = take (Suc i) (m_data ?this1)"
    and ok: "list_all digit_ok (m_data this')"
    and cr: "0 \<le> carry'" "carry' \<le> 9"
    and mg: "magnitude (drop (Suc i) (m_data this')) + 10 ^ k * carry'
              = num * magnitude (drop (Suc i) (m_data ?this1)) + ?p div 10"
    using Suc.IH [OF len1 ok1 c1_range Suc.prems(5,6)] by blast
  have i_lt': "i < length (m_data this')" using len i_lt by simp
  have nth_eq: "m_data this' ! i = int_to_char (?p mod 10 + 48)"
  proof -
    have "m_data this' ! i = take (Suc i) (m_data this') ! i" by simp
    also have "\<dots> = take (Suc i) (m_data ?this1) ! i" using tk by simp
    also have "\<dots> = int_to_char (?p mod 10 + 48)" using i_lt by simp
    finally show ?thesis .
  qed
  have tk_i: "take i (m_data this') = take i ?ds"
  proof -
    have "take i (m_data this') = take i (take (Suc i) (m_data this'))" by simp
    also have "\<dots> = take i (take (Suc i) (m_data ?this1))" using tk by simp
    also have "\<dots> = take i ?ds" by simp
    finally show ?thesis .
  qed
  have drop': "drop i (m_data this') = int_to_char (?p mod 10 + 48) # drop (Suc i) (m_data this')"
    using Cons_nth_drop_Suc [OF i_lt'] nth_eq by simp
  have drop0: "drop i ?ds = ?ds ! i # drop (Suc i) ?ds"
    using Cons_nth_drop_Suc [OF i_lt] by simp
  have drop1: "drop (Suc i) (m_data ?this1) = drop (Suc i) ?ds"
    by simp
  have m': "magnitude (drop i (m_data this')) = ?p mod 10 + 10 * magnitude (drop (Suc i) (m_data this'))"
    using drop' dg_range by (simp add: char_round_trip)
  have m0: "magnitude (drop i ?ds) = ?d + 10 * magnitude (drop (Suc i) ?ds)"
    using drop0 d_eq by simp
  have "magnitude (drop i (m_data this')) + 10 ^ Suc k * carry'
          = ?p mod 10 + 10 * (magnitude (drop (Suc i) (m_data this')) + 10 ^ k * carry')"
    using m' by (simp add: algebra_simps)
  also have "\<dots> = ?p mod 10 + 10 * (num * magnitude (drop (Suc i) ?ds) + ?p div 10)"
    using mg drop1 by simp
  also have "\<dots> = ?p + 10 * num * magnitude (drop (Suc i) ?ds)"
    by (simp add: algebra_simps)
  also have "\<dots> = num * magnitude (drop i ?ds) + carry"
    using m0 by (simp add: algebra_simps)
  finally have goal: "magnitude (drop i (m_data this')) + 10 ^ Suc k * carry'
          = num * magnitude (drop i ?ds) + carry" .
  show ?case
    using step run sg len tk_i ok cr goal by simp
qed


lemma scalar_digits_correct:
  assumes "digits_in_range this" and "0 < num" and "num \<le> 10"
  shows "\<exists>this'. scalar_digits this num = Inr this'
         \<and> numeric_value this' = num * numeric_value this
         \<and> m_sign this' = m_sign this
         \<and> digits_in_range this'"
proof -
  let ?ds = "m_data this"
  have ok0: "list_all digit_ok ?ds"
    using assms(1) by (simp add: digits_in_range_def)
  obtain this1 carry1 where
    run: "scalar_loop num 0 (length ?ds) this 0 = Inr (this1, carry1)"
    and sg: "m_sign this1 = m_sign this"
    and len: "length (m_data this1) = length ?ds"
    and ok: "list_all digit_ok (m_data this1)"
    and cr: "0 \<le> carry1" "carry1 \<le> 9"
    and mg: "magnitude (drop 0 (m_data this1)) + 10 ^ length ?ds * carry1
              = num * magnitude (drop 0 ?ds) + 0"
    using scalar_loop_correct [of 0 "length ?ds" this 0 num] ok0 assms(2,3) by auto
  let ?this2 = "if carry1 \<noteq> 0 then push_digit this1 carry1 else this1"
  have mag2: "magnitude (m_data ?this2) = num * magnitude ?ds"
  proof (cases "carry1 = 0")
    case True
    then show ?thesis using mg by simp
  next
    case False
    then show ?thesis
      using mg len cr by (simp add: push_digit_def magnitude_append char_round_trip)
  qed
  have ok2: "list_all digit_ok (m_data ?this2)"
    using ok cr by (simp add: push_digit_def digit_ok_int_to_char)
  have sg2: "m_sign ?this2 = m_sign this"
    using sg by (simp add: push_digit_def)
  let ?res = "if is_negative this \<and> num > 0 then ?this2\<lparr>m_sign := NEGATIVE\<rparr> else ?this2"
  have res: "scalar_digits this num = Inr ?res"
    using run by (simp add: scalar_digits_def Let_def count_def)
  have sg3: "m_sign ?res = m_sign this"
    using sg2 by (simp add: is_negative_def)
  have data3: "m_data ?res = m_data ?this2"
    by simp
  have "numeric_value ?res = num * numeric_value this"
    using sg3 data3 mag2 unfolding numeric_value_def is_negative_def by simp
  moreover have "digits_in_range ?res"
    using ok2 data3 unfolding digits_in_range_def by simp
  ultimately show ?thesis
    using res sg3 by blast
qed

section \<open>Rendering what the integer constructor builds\<close>

text \<open>
  \<^verbatim>\<open>to_string\<close> gives back the stored characters, most significant first, after the
  sign; the constructor stores the decimal digits of a positive \<open>num\<close>, least
  significant first. So every native integer but the most negative one, whose negation
  overflows, renders as its decimal text.
\<close>

lemma char_of_minus_256: "char_of (k - (256::int)) = (char_of k :: char)"
proof -
  have "char_of ((k - 256) mod 256) = (char_of (k mod 256) :: char)"
    by simp
  then show ?thesis by (simp only: char_of_mod_256)
qed

lemma int_to_char_char_to_int: "int_to_char (char_to_int c) = c"
  by (simp add: int_to_char_def char_to_int_def Let_def char_of_minus_256)

lemma to_string_loop_rev:
  "k \<le> length (m_data this) \<Longrightarrow>
   to_string_loop this k res = res @ rev (take k (m_data this))"
proof (induction k arbitrary: res)
  case 0
  then show ?case by simp
next
  case (Suc k)
  then have k: "k < length (m_data this)" by simp
  have "int_to_char (get_digit this (int k) + 48) = m_data this ! k"
    using k by (simp add: get_digit_nth int_to_char_char_to_int)
  then show ?case
    using Suc.IH [of "res @ [m_data this ! k]"] k
    by (simp add: take_Suc_conv_app_nth)
qed


lemma to_string_rev:
  "to_string this =
     (let res = (if is_negative this then [CHR ''-''] else []) @ rev (m_data this)
      in if res \<noteq> [] then res else ''0'')"
  by (simp add: to_string_def Let_def count_def to_string_loop_rev)


lemma int_to_char_digit: "0 \<le> d \<Longrightarrow> int_to_char (d + 48) = char_of (48 + nat d)"
proof -
  assume "0 \<le> d"
  then have "d + 48 = int (48 + nat d)" by simp
  then show ?thesis
    by (simp only: int_to_char_def char_of_nat)
qed

lemma from_int_loop_positive:
  "0 < num \<Longrightarrow>
   from_int_loop num this = this\<lparr>m_data := m_data this @ rev (decimal_digits (nat num))\<rparr>"
proof (induction num this rule: from_int_loop.induct)
  case (1 num this)
  let ?c = "char_of (48 + nat num mod 10) :: char"
  have push: "push_digit this (num smod BASE) = this\<lparr>m_data := m_data this @ [?c]\<rparr>"
    using "1.prems"
    by (simp add: push_digit_def BASE_def smod_nonneg int_to_char_digit nat_mod_distrib)
  have unfold: "from_int_loop num this = from_int_loop (num div 10) (this\<lparr>m_data := m_data this @ [?c]\<rparr>)"
    using "1.prems" push by (subst from_int_loop.simps) (simp add: sdiv_nonneg)
  show ?case
  proof (cases "num < 10")
    case True
    then have "num div 10 = 0" using "1.prems" by simp
    moreover have "nat num < 10"
      using True by simp
    then have "decimal_digits (nat num) = [char_of (48 + nat num)]"
      by (subst decimal_digits.simps) simp
    moreover have "nat num mod 10 = nat num" using True by simp
    ultimately show ?thesis
      using unfold by (simp add: from_int_loop.simps [of 0])
  next
    case False
    then have pos: "0 < num sdiv 10"
      using "1.prems" by (simp add: sdiv_nonneg)
    have nz: "num \<noteq> 0" using "1.prems" by simp
    have ih: "from_int_loop (num sdiv 10) (push_digit this (num smod BASE))
        = (push_digit this (num smod BASE))
            \<lparr>m_data := m_data (push_digit this (num smod BASE))
                        @ rev (decimal_digits (nat (num sdiv 10)))\<rparr>"
      using "1.IH" [OF nz pos] .
    have "\<not> nat num < 10"
      using False by simp
    then have dd: "decimal_digits (nat num) = decimal_digits (nat num div 10) @ [?c]"
      by (subst decimal_digits.simps) simp
    have "nat (num div 10) = nat num div 10"
      using "1.prems" by (simp add: nat_div_distrib)
    then show ?thesis
      using ih push unfold dd "1.prems" by (simp add: sdiv_nonneg)
  qed
qed

lemma int_round_trip:
  assumes "- 2147483648 < n" and "n < 2147483648"
  shows "to_string (BigInteger_int n) = decimal_text n"
proof -
  have ne: "decimal_digits m \<noteq> []" for m
    by (subst decimal_digits.simps) simp
  consider "n = 0" | "0 < n" | "n < 0" by linarith
  then show ?thesis
  proof cases
    case 1
    have "to_string (BigInteger_int 0) = decimal_text 0"
      by code_simp
    then show ?thesis using 1 by simp
  next
    case 2
    then show ?thesis
      using ne by (simp add: BigInteger_int_def from_int_loop_positive to_string_rev
          decimal_text_def is_negative_def Let_def)
  next
    case 3
    then have "int32 (n * (- 1)) = - n"
      using assms(1) by (simp add: int32_def)
    then show ?thesis
      using 3 ne by (simp add: BigInteger_int_def from_int_loop_positive to_string_rev
          decimal_text_def is_negative_def Let_def)
  qed
qed

section \<open>The bound on the depth only cuts\<close>

text \<open>
  A call that returns within the depth \<open>n\<close> returns the same within any greater depth:
  the bound has no other effect than to cut calls that are too deep.
\<close>

lemma case_result_mono:
  assumes "(case x of None \<Rightarrow> None | Some (Inl e) \<Rightarrow> Some (Inl e) | Some (Inr v) \<Rightarrow> f v) = Some r"
    and "\<And>y. x = Some y \<Longrightarrow> x' = Some y"
    and "\<And>v. x = Some (Inr v) \<Longrightarrow> f v = Some r \<Longrightarrow> f' v = Some r"
  shows "(case x' of None \<Rightarrow> None | Some (Inl e) \<Rightarrow> Some (Inl e) | Some (Inr v) \<Rightarrow> f' v) = Some r"
proof (cases x)
  case None
  then show ?thesis using assms(1) by simp
next
  case (Some y)
  then have x': "x' = Some y" using assms(2) by simp
  show ?thesis
  proof (cases y)
    case (Inl e)
    then show ?thesis using assms(1) Some x' by simp
  next
    case (Inr v)
    then show ?thesis using assms(1,3) Some x' by simp
  qed
qed

lemma depth_mono:
  "plus_assign n a b = Some r \<Longrightarrow> plus_assign (Suc n) a b = Some r"
  "minus_assign n a b = Some r \<Longrightarrow> minus_assign (Suc n) a b = Some r"
  "times_assign n a b = Some r \<Longrightarrow> times_assign (Suc n) a b = Some r"
  "times_loop n rhs i k s l = Some q \<Longrightarrow> times_loop (Suc n) rhs i k s l = Some q"
  "times_assign_int n a num = Some r \<Longrightarrow> times_assign_int (Suc n) a num = Some r"
proof (induction n a b and n a b and n a b and n rhs i k s l and n a num
       arbitrary: r and r and r and q and r
       rule: plus_assign_minus_assign_times_assign_times_loop_times_assign_int.induct)
  case (1 this rhs)
  then show ?case by simp
next
  case (2 n this rhs)
  note step = plus_assign.simps(2) [of _ this rhs]
  show ?case
  proof (cases "is_positive this \<noteq> is_positive rhs")
    case False
    show ?thesis
      using "2.prems" unfolding step [of n] step [of "Suc n"] if_not_P [OF False] .
  next
    case True
    note A = "2.prems" [unfolded step [of n] if_P [OF True]]
    show ?thesis
      unfolding step [of "Suc n"] if_P [OF True]
      by (rule case_result_mono [OF A]) (use "2.IH" True in blast)+
  qed
next
  case (3 this rhs)
  then show ?case by simp
next
  case (4 n this rhs)
  note step = minus_assign.simps(2) [of _ this rhs]
  show ?case
  proof (cases "is_negative this \<noteq> is_negative rhs")
    case True
    note A = "4.prems" [unfolded step [of n] if_P [OF True]]
    show ?thesis
      unfolding step [of "Suc n"] if_P [OF True]
      by (rule case_result_mono [OF A]) (use "4.IH" True in blast)+
  next
    case same: False
    show ?thesis
    proof (cases "(is_positive this \<and> op_lt this rhs) \<or> (is_negative this \<and> op_gt this rhs)")
      case False
      show ?thesis
        using "4.prems"
        unfolding step [of n] step [of "Suc n"] if_not_P [OF same] if_not_P [OF False] .
    next
      case True
      note A = "4.prems" [unfolded step [of n] if_not_P [OF same] if_P [OF True]]
      show ?thesis
        unfolding step [of "Suc n"] if_not_P [OF same] if_P [OF True]
        by (rule case_result_mono [OF A]) (use "4.IH" same True in blast)+
    qed
  qed
next
  case (5 this rhs)
  then show ?case by simp
next
  case (6 n this rhs)
  note step = times_assign.simps(2) [of _ this rhs]
  note A = "6.prems" [unfolded step [of n] Let_def]
  show ?case
    unfolding step [of "Suc n"] Let_def
    by (rule case_result_mono [OF A]) (use "6.IH" in blast)+
next
  case (7 n rhs i sum_acc lhs)
  then show ?case by simp
next
  case (8 n rhs i k sum_acc lhs)
  note step = times_loop.simps(2) [of _ rhs i k sum_acc lhs]
  let ?third = "\<lambda>m sum_acc. (case times_assign_int m lhs 10 of
                  None \<Rightarrow> None
                | Some (Inl e) \<Rightarrow> Some (Inl e)
                | Some (Inr lhs) \<Rightarrow> times_loop m rhs (Suc i) k sum_acc lhs)"
  let ?second = "\<lambda>m product. (case plus_assign m sum_acc product of
             None \<Rightarrow> None
           | Some (Inl e) \<Rightarrow> Some (Inl e)
           | Some (Inr sum_acc) \<Rightarrow> ?third m sum_acc)"
  note A = "8.prems" [unfolded step [of n]]
  have third: "?third (Suc n) s' = Some q"
    if "times_assign_int n lhs (get_digit rhs (int i)) = Some (Inr p)"
      and "plus_assign n sum_acc p = Some (Inr s')" and B: "?third n s' = Some q" for p s'
    by (rule case_result_mono [OF B]) (use "8.IH" that(1,2) in blast)+
  have second: "?second (Suc n) p = Some q"
    if "times_assign_int n lhs (get_digit rhs (int i)) = Some (Inr p)"
      and B: "?second n p = Some q" for p
    by (rule case_result_mono [OF B]) (use "8.IH" third that(1) in blast)+
  show ?case
    unfolding step [of "Suc n"]
    by (rule case_result_mono [OF A]) (use "8.IH" second in blast)+
next
  case (9 this num)
  then show ?case by simp
next
  case (10 n this num)
  note step = times_assign_int.simps(2) [of _ this num]
  show ?case
  proof (cases "num \<noteq> 0 \<and> num \<noteq> 1 \<and> (BASE < num \<or> num < 0)")
    case True
    then have "times_assign n this (BigInteger_int num) = Some r"
      using "10.prems" unfolding step [of n] by simp
    then have "times_assign (Suc n) this (BigInteger_int num) = Some r"
      using "10.IH" True by blast
    then show ?thesis
      using True unfolding step [of "Suc n"] by (simp del: times_assign.simps)
  next
    case False
    then show ?thesis
      using "10.prems" unfolding step [of n] step [of "Suc n"] by auto
  qed
qed


lemma depth_mono_le:
  assumes "n \<le> m"
  shows "plus_assign n a b = Some r \<Longrightarrow> plus_assign m a b = Some r"
    and "minus_assign n a b = Some r \<Longrightarrow> minus_assign m a b = Some r"
    and "times_assign n a b = Some r \<Longrightarrow> times_assign m a b = Some r"
    and "times_assign_int n a num = Some r \<Longrightarrow> times_assign_int m a num = Some r"
  using assms by (induction m rule: dec_induct) (simp_all only: depth_mono)

section \<open>Negating a negative value\<close>

text \<open>
  \<^verbatim>\<open>x * -1\<close> goes through \<^verbatim>\<open>operator*=(const int &)\<close> to
  \<^verbatim>\<open>operator*=(const BigInteger &)\<close> with \<^verbatim>\<open>BigInteger(-1)\<close>, whose one round adds
  \<^verbatim>\<open>lhs * 1\<close>, that is \<open>x\<close> with its own sign, to the positive \<^verbatim>\<open>sum\<close>. For a negative
  \<open>x\<close> the signs of that addition differ, so \<^verbatim>\<open>operator+=\<close> asks for \<^verbatim>\<open>x * -1\<close>
  again: the same call on the same value, one level deeper. No bound on the depth is
  enough.
\<close>

lemma negation_of_negative_diverges:
  "is_negative x \<Longrightarrow> times_assign_int n x (- 1) = None"
proof (induction n arbitrary: x rule: less_induct)
  case (less n)
  show ?case
  proof (cases n)
    case 0
    then show ?thesis by simp
  next
    case n1: (Suc m)
    show ?thesis
    proof (cases m)
      case 0
      with n1 show ?thesis by (simp add: BASE_def)
    next
      case m1: (Suc k)
      have "times_assign (Suc k) x (BigInteger_int (- 1)) = None"
      proof (cases k)
        case 0
        then show ?thesis
          by (simp add: BigInteger_int_minus_1 count_def)
      next
        case k1: (Suc j)
        have "j < n" using n1 m1 k1 by simp
        then have ih: "times_assign_int j x (- 1) = None"
          using less.IH less.prems by blast
        have "is_positive (BigInteger_int 0)"
          by (simp add: BigInteger_int_0 is_positive_def)
        moreover have "\<not> is_positive x"
          using less.prems by (simp add: is_positive_def is_negative_def)
        ultimately have "plus_assign (Suc j) (BigInteger_int 0) x = None"
          using ih by simp
        moreover have "get_digit (BigInteger_int (- 1)) 0 = 1"
          by code_simp
        ultimately have
          "times_loop (Suc j) (BigInteger_int (- 1)) 0 (Suc 0) (BigInteger_int 0) x = None"
          by simp
        moreover have "nat (count (BigInteger_int (- 1))) = Suc 0"
          by code_simp
        ultimately show ?thesis
          using k1 by (simp del: times_loop.simps)
      qed
      then show ?thesis
        using n1 m1 by (simp add: BASE_def)
    qed
  qed
qed

lemma plus_positive_negative_diverges:
  assumes "is_positive a" and "is_negative b"
  shows "plus_assign n a b = None"
proof (cases n)
  case 0
  then show ?thesis by simp
next
  case (Suc m)
  have "is_positive a \<noteq> is_positive b"
    using assms by (simp add: is_positive_def is_negative_def)
  then show ?thesis
    using Suc negation_of_negative_diverges [OF assms(2)] by simp
qed

lemma minus_positive_negative_diverges:
  assumes "is_positive a" and "is_negative b"
  shows "minus_assign n a b = None"
proof (cases n)
  case 0
  then show ?thesis by simp
next
  case (Suc m)
  have "is_negative a \<noteq> is_negative b"
    using assms by (simp add: is_positive_def is_negative_def)
  then show ?thesis
    using Suc negation_of_negative_diverges [OF assms(2)] by simp
qed

lemma scalar_digits_negative:
  assumes "is_negative this" and "0 < num" and "scalar_digits this num = Inr r"
  shows "is_negative r"
  using assms
  by (auto simp: scalar_digits_def Let_def is_negative_def split: sum.splits prod.splits if_splits)

lemma times_assign_int_negative:
  assumes "is_negative this" and "0 < num" and "num \<le> 10"
  shows "times_assign_int n this num = None
         \<or> (\<exists>r. times_assign_int n this num = Some (Inr r) \<and> is_negative r)"
proof (cases n)
  case 0
  then show ?thesis by simp
next
  case (Suc m)
  show ?thesis
  proof (cases "num = 1")
    case True
    then show ?thesis using Suc assms(1) by simp
  next
    case False
    obtain r where r: "scalar_digits this num = Inr r"
      using scalar_digits_no_throw [of this num] by (cases "scalar_digits this num") auto
    then have "is_negative r"
      using scalar_digits_negative assms(1,2) by blast
    then show ?thesis
      using Suc False assms(2,3) r by (simp add: BASE_def)
  qed
qed

lemma times_negative_left_diverges:
  assumes "is_negative a" and "0 < count b"
    and "0 < get_digit b 0" and "get_digit b 0 \<le> 10"
  shows "times_assign n a b = None"
proof (cases n)
  case 0
  then show ?thesis by simp
next
  case (Suc m)
  obtain k where k: "nat (count b) = Suc k"
    using assms(2) by (cases "nat (count b)") auto
  have zero_pos: "is_positive (BigInteger_int 0)"
    by (simp add: BigInteger_int_0 is_positive_def)
  have "times_loop m b 0 (Suc k) (BigInteger_int 0) a = None"
    using times_assign_int_negative [OF assms(1,3,4), of m]
  proof
    assume "times_assign_int m a (get_digit b 0) = None"
    then show ?thesis by simp
  next
    assume "\<exists>r. times_assign_int m a (get_digit b 0) = Some (Inr r) \<and> is_negative r"
    then obtain r where r: "times_assign_int m a (get_digit b 0) = Some (Inr r)"
      and neg: "is_negative r" by blast
    have "plus_assign m (BigInteger_int 0) r = None"
      using plus_positive_negative_diverges [OF zero_pos neg] .
    then show ?thesis using r by simp
  qed
  then show ?thesis
    using Suc k by (simp del: times_loop.simps)
qed


section \<open>When addition and subtraction return\<close>

text \<open>
  The comparison is asymmetric on operands of one sign, so the restated subtraction
  \<^verbatim>\<open>rhs - *this\<close> takes the digit loop; and negating a positive value returns. Hence
  \<^verbatim>\<open>a += b\<close> and \<^verbatim>\<open>a -= b\<close> on two objects return exactly when it is not the case that
  \<open>a\<close> is positive and \<open>b\<close> negative.
\<close>

lemma sign_cases: "is_negative this = (\<not> is_positive this)"
  by (cases "m_sign this") (simp_all add: is_negative_def is_positive_def)

lemma less_than_loop_asym:
  "m_sign a = m_sign b \<Longrightarrow> less_than_loop a b k \<Longrightarrow> \<not> less_than_loop b a k"
  by (induction k) (auto simp: is_positive_def is_negative_def split: if_splits)

lemma less_than_asym:
  "m_sign a = m_sign b \<Longrightarrow> less_than a b \<Longrightarrow> \<not> less_than b a"
  by (auto simp: less_than_def Let_def is_positive_def is_negative_def
      dest: less_than_loop_asym split: if_splits)

lemma plus_same_sign_returns:
  assumes "m_sign a = m_sign b"
  shows "\<exists>r. plus_assign (Suc n) a b = Some (Inr r)"
proof -
  obtain r where "add_digits a b = Inr r"
    using add_digits_no_throw [of a b] by (cases "add_digits a b") auto
  then show ?thesis
    using assms by (simp add: is_positive_def)
qed

lemma minus_same_sign_returns:
  assumes "m_sign a = m_sign b"
  shows "\<exists>r. minus_assign (Suc (Suc n)) a b = Some (Inr r)"
proof -
  let ?swap = "\<lambda>x y. (is_positive x \<and> op_lt x y) \<or> (is_negative x \<and> op_gt x y)"
  have same: "\<not> is_negative a \<noteq> is_negative b" "\<not> is_negative b \<noteq> is_negative a"
    using assms by (simp_all add: is_negative_def)
  have direct: "\<exists>r. minus_assign (Suc m) x y = Some (Inr r)"
    if "\<not> is_negative x \<noteq> is_negative y" and "\<not> ?swap x y" for m x y
  proof -
    obtain r where "sub_digits x y = Inr r"
      using sub_digits_no_throw [of x y] by (cases "sub_digits x y") auto
    moreover have "minus_assign (Suc m) x y = Some (sub_digits x y)"
      unfolding minus_assign.simps(2) [of m x y] if_not_P [OF that(1)] if_not_P [OF that(2)] ..
    ultimately show ?thesis by simp
  qed
  show ?thesis
  proof (cases "?swap a b")
    case False
    then show ?thesis using direct [OF same(1)] by blast
  next
    case True
    then have "\<not> ?swap b a"
      using assms less_than_asym [of a b] less_than_asym [of b a]
      by (auto simp: op_lt_def op_gt_def sign_cases is_positive_def)
    then obtain r where r: "minus_assign (Suc n) b a = Some (Inr r)"
      using direct [OF same(2)] by blast
    show ?thesis
      unfolding minus_assign.simps(2) [of "Suc n" a b] if_not_P [OF same(1)] if_P [OF True] r
      by simp
  qed
qed

lemma negation_of_positive_returns:
  assumes "is_positive x"
  shows "\<exists>r. times_assign_int (Suc (Suc (Suc n))) x (- 1) = Some (Inr r) \<and> is_negative r"
proof -
  let ?m1 = "BigInteger_int (- 1)" and ?z = "BigInteger_int 0"
  have z: "is_positive ?z" "m_sign ?z = POSITIVE"
    by (simp_all add: BigInteger_int_0 is_positive_def)
  obtain s where s: "add_digits ?z x = Inr s"
    using add_digits_no_throw [of ?z x] by (cases "add_digits ?z x") auto
  obtain l where l: "scalar_digits x 10 = Inr l"
    using scalar_digits_no_throw [of x 10] by (cases "scalar_digits x 10") auto
  have d: "get_digit ?m1 0 = 1" "nat (count ?m1) = Suc 0" "m_sign ?m1 = NEGATIVE"
    by code_simp+
  have one: "times_assign_int (Suc n) x 1 = Some (Inr x)"
    by simp
  have ten: "times_assign_int (Suc n) x 10 = Some (Inr l)"
    using l by (simp add: BASE_def)
  have add: "plus_assign (Suc n) ?z x = Some (Inr s)"
    using s z(1) assms by simp
  have loop: "times_loop (Suc n) ?m1 0 (Suc 0) ?z x = Some (Inr (s, l))"
    using one ten add d(1)
    by (simp del: times_assign_int.simps plus_assign.simps)
  have "times_assign (Suc (Suc n)) x ?m1 = Some (Inr (s\<lparr>m_sign := NEGATIVE\<rparr>))"
    using loop d(2,3) assms
    by (simp del: times_loop.simps add: is_positive_def)
  then have "times_assign_int (Suc (Suc (Suc n))) x (- 1) = Some (Inr (s\<lparr>m_sign := NEGATIVE\<rparr>))"
    by (simp del: times_assign.simps add: BASE_def)
  then show ?thesis
    by (simp add: is_negative_def)
qed

lemma plus_negative_positive_returns:
  assumes "is_negative a" and "is_positive b"
  shows "\<exists>r. plus_assign (Suc (Suc (Suc (Suc n)))) a b = Some (Inr r)"
proof -
  obtain neg where neg: "times_assign_int (Suc (Suc (Suc n))) b (- 1) = Some (Inr neg)"
    and "is_negative neg"
    using negation_of_positive_returns [OF assms(2)] by blast
  then have "m_sign a = m_sign neg"
    using assms(1) by (simp add: is_negative_def)
  then obtain r where "minus_assign (Suc (Suc (Suc n))) a neg = Some (Inr r)"
    using minus_same_sign_returns [of a neg "Suc n"] by blast
  then show ?thesis
    using neg assms
    by (simp del: minus_assign.simps times_assign_int.simps add: sign_cases)
qed

lemma minus_negative_positive_returns:
  assumes "is_negative a" and "is_positive b"
  shows "\<exists>r. minus_assign (Suc (Suc (Suc (Suc n)))) a b = Some (Inr r)"
proof -
  obtain neg where neg: "times_assign_int (Suc (Suc (Suc n))) b (- 1) = Some (Inr neg)"
    and "is_negative neg"
    using negation_of_positive_returns [OF assms(2)] by blast
  then have "m_sign a = m_sign neg"
    using assms(1) by (simp add: is_negative_def)
  then obtain r where "plus_assign (Suc (Suc (Suc n))) a neg = Some (Inr r)"
    using plus_same_sign_returns [of a neg "Suc (Suc n)"] by blast
  then show ?thesis
    using neg assms
    by (simp del: plus_assign.simps times_assign_int.simps add: sign_cases)
qed

lemma plus_returns_iff:
  "(\<exists>n r. plus_assign n a b = Some r) \<longleftrightarrow> \<not> (is_positive a \<and> is_negative b)"
proof
  assume "\<exists>n r. plus_assign n a b = Some r"
  then show "\<not> (is_positive a \<and> is_negative b)"
    using plus_positive_negative_diverges [of a b] by auto
next
  assume *: "\<not> (is_positive a \<and> is_negative b)"
  show "\<exists>n r. plus_assign n a b = Some r"
  proof (cases "m_sign a = m_sign b")
    case True
    then show ?thesis using plus_same_sign_returns [of a b 0] by blast
  next
    case False
    then have "is_negative a" "is_positive b"
      using * by (cases "m_sign a"; cases "m_sign b"; simp add: is_negative_def is_positive_def)+
    then show ?thesis using plus_negative_positive_returns [of a b 0] by blast
  qed
qed

lemma minus_returns_iff:
  "(\<exists>n r. minus_assign n a b = Some r) \<longleftrightarrow> \<not> (is_positive a \<and> is_negative b)"
proof
  assume "\<exists>n r. minus_assign n a b = Some r"
  then show "\<not> (is_positive a \<and> is_negative b)"
    using minus_positive_negative_diverges [of a b] by auto
next
  assume *: "\<not> (is_positive a \<and> is_negative b)"
  show "\<exists>n r. minus_assign n a b = Some r"
  proof (cases "m_sign a = m_sign b")
    case True
    then show ?thesis using minus_same_sign_returns [of a b 0] by blast
  next
    case False
    then have "is_negative a" "is_positive b"
      using * by (cases "m_sign a"; cases "m_sign b"; simp add: is_negative_def is_positive_def)+
    then show ?thesis using minus_negative_positive_returns [of a b 0] by blast
  qed
qed


section \<open>The relational operators\<close>

lemma less_than_loop_irrefl: "\<not> less_than_loop this this k"
  by (induction k) simp_all

lemma less_than_irrefl: "\<not> less_than this this"
  by (simp add: less_than_def less_than_loop_irrefl)

text \<open>
  \<^verbatim>\<open>rhs > rhs\<close> is never true, so \<^verbatim>\<open>operator>=\<close> is \<^verbatim>\<open>operator==\<close>.
\<close>

lemma op_ge_is_op_eq: "op_ge lhs rhs = op_eq lhs rhs"
  by (simp add: op_ge_def op_gt_def op_lt_def less_than_irrefl)

section \<open>The claims\<close>

text \<open>
  C1. The claim: for every pair of operands, also of differing signs, \<^verbatim>\<open>a += b\<close>,
  \<^verbatim>\<open>a -= b\<close> and \<^verbatim>\<open>a *= b\<close> terminate. The code: with \<open>a = BigInteger(1)\<close> and
  \<open>b = BigInteger(-1)\<close>, neither \<^verbatim>\<open>a += b\<close> nor \<^verbatim>\<open>a -= b\<close> returns, and neither does
  \<^verbatim>\<open>b *= a\<close>, whatever depth of calls is allowed: each of them comes to negate a
  negative value.
\<close>

theorem mixed_signs_never_return:
  "op_plus_assign n (BigInteger_int 1) (Other (BigInteger_int (- 1))) = None
   \<and> op_minus_assign n (BigInteger_int 1) (Other (BigInteger_int (- 1))) = None
   \<and> op_times_assign n (BigInteger_int (- 1)) (Other (BigInteger_int 1)) = None"
proof -
  have pos: "is_positive (BigInteger_int 1)" and neg: "is_negative (BigInteger_int (- 1))"
    by code_simp+
  have b: "0 < count (BigInteger_int 1)" "0 < get_digit (BigInteger_int 1) 0"
    "get_digit (BigInteger_int 1) 0 \<le> 10"
    by code_simp+
  show ?thesis
    using plus_positive_negative_diverges [OF pos neg, of n]
      minus_positive_negative_diverges [OF pos neg, of n]
      times_negative_left_diverges [OF neg b, of n]
    by (simp add: op_plus_assign_def op_minus_assign_def op_times_assign_def)
qed


text \<open>
  C2. The claim: \<open>BigInteger(-3) * BigInteger(-4) == BigInteger(12)\<close> and
  \<open>BigInteger(-3) * BigInteger(4) == BigInteger(-12)\<close>. The code: neither product
  returns, as the binary operator or as the compound assignment, whatever depth of
  calls is allowed. The left operand keeps its negative sign in the local \<^verbatim>\<open>lhs\<close>,
  and the first \<^verbatim>\<open>sum += lhs * digit\<close> adds a negative value to the positive \<^verbatim>\<open>sum\<close>.
  With a positive left operand the product returns: \<open>BigInteger(3) * BigInteger(-4)\<close>
  is -12.
\<close>

theorem negative_left_product_never_returns:
  "op_times n (BigInteger_int (- 3)) (BigInteger_int (- 4)) = None
   \<and> op_times n (BigInteger_int (- 3)) (BigInteger_int 4) = None
   \<and> op_times_assign n (BigInteger_int (- 3)) (Other (BigInteger_int (- 4))) = None
   \<and> op_times_assign n (BigInteger_int (- 3)) (Other (BigInteger_int 4)) = None
   \<and> op_times 3 (BigInteger_int 3) (BigInteger_int (- 4))
        = Some (Inr \<lparr>m_sign = NEGATIVE, m_data = ''21''\<rparr>)"
proof -
  have ok: "op_times 3 (BigInteger_int 3) (BigInteger_int (- 4))
        = Some (Inr \<lparr>m_sign = NEGATIVE, m_data = ''21''\<rparr>)"
    by code_simp
  have neg: "is_negative (BigInteger_int (- 3))"
    by code_simp
  have b1: "0 < count (BigInteger_int (- 4))" "0 < get_digit (BigInteger_int (- 4)) 0"
    "get_digit (BigInteger_int (- 4)) 0 \<le> 10"
    by code_simp+
  have b2: "0 < count (BigInteger_int 4)" "0 < get_digit (BigInteger_int 4) 0"
    "get_digit (BigInteger_int 4) 0 \<le> 10"
    by code_simp+
  show ?thesis
    using times_negative_left_diverges [OF neg b1, of n]
      times_negative_left_diverges [OF neg b2, of n] ok
    by (simp add: op_times_def op_times_assign_def)
qed

text \<open>
  C3. The claim: \<open>a - a == 0\<close> for every \<open>a\<close>, also for a negative \<open>a\<close> and a distinct
  object of the same value. The code: \<open>BigInteger(-5) - BigInteger(-5)\<close> takes the digit
  loop and \<^verbatim>\<open>normalize\<close>, which leave the sign: the result has no digits and the
  sign NEGATIVE, and \<^verbatim>\<open>operator==\<close> does not hold between it and \<open>BigInteger(0)\<close>. The
  binary operator works on a copy, so \<open>a - a\<close> never takes the branch \<^verbatim>\<open>this == &rhs\<close>.
\<close>

theorem negative_minus_itself_is_not_zero:
  "op_minus (Suc n) (BigInteger_int (- 5)) (BigInteger_int (- 5))
     = Some (Inr \<lparr>m_sign = NEGATIVE, m_data = []\<rparr>)
   \<and> op_minus_assign (Suc n) (BigInteger_int (- 5)) (Other (BigInteger_int (- 5)))
     = Some (Inr \<lparr>m_sign = NEGATIVE, m_data = []\<rparr>)
   \<and> \<not> op_eq \<lparr>m_sign = NEGATIVE, m_data = []\<rparr> (BigInteger_int 0)"
proof -
  let ?a = "BigInteger_int (- 5)"
  have "is_negative ?a" and "\<not> is_positive ?a"
    by code_simp+
  moreover have "\<not> op_gt ?a ?a"
    by (simp add: op_gt_def op_lt_def less_than_irrefl)
  moreover have "sub_digits ?a ?a = Inr \<lparr>m_sign = NEGATIVE, m_data = []\<rparr>"
    by code_simp
  ultimately have "minus_assign (Suc n) ?a ?a = Some (Inr \<lparr>m_sign = NEGATIVE, m_data = []\<rparr>)"
    by simp
  moreover have "\<not> op_eq \<lparr>m_sign = NEGATIVE, m_data = []\<rparr> (BigInteger_int 0)"
    by code_simp
  ultimately show ?thesis
    by (simp add: op_minus_def op_minus_assign_def)
qed

text \<open>
  C4. The claim: every zero a public operation produces has the sign POSITIVE and no
  digits; multiplying a negative value by zero is the claim's own example. The code:
  \<open>BigInteger(-4) *= BigInteger(0)\<close> runs no round of the loop and then sets the sign
  NEGATIVE because the signs of the operands differ: the result has no digits and the
  sign NEGATIVE.
\<close>

theorem negative_times_zero_is_negative_zero:
  "op_times_assign (Suc n) (BigInteger_int (- 4)) (Other (BigInteger_int 0))
     = Some (Inr \<lparr>m_sign = NEGATIVE, m_data = []\<rparr>)
   \<and> op_times (Suc n) (BigInteger_int (- 4)) (BigInteger_int 0)
     = Some (Inr \<lparr>m_sign = NEGATIVE, m_data = []\<rparr>)"
  by (simp add: op_times_assign_def op_times_def BigInteger_int_minus_4 BigInteger_int_0
      count_def)

text \<open>
  C5. The claim: an object with no digits renders as \<open>0\<close> whatever its sign. The code:
  \<^verbatim>\<open>to_string\<close> pushes \<open>-\<close> first when the sign is NEGATIVE, and returns \<open>0\<close> only
  for an empty text: an object with no digits and the sign NEGATIVE, which the text
  constructor gives for \<open>-\<close>, renders as \<open>-\<close>.
\<close>

theorem negative_empty_renders_as_minus:
  "BigInteger_string ''-'' = \<lparr>m_sign = NEGATIVE, m_data = []\<rparr>
   \<and> to_string \<lparr>m_sign = NEGATIVE, m_data = []\<rparr> = ''-''"
  by code_simp

text \<open>
  C6. The claim: every value is normalized, those of the text constructors too, as for
  \<open>0\<close> and \<open>007\<close>. The code: the text constructors push every character that is not
  \<open>_\<close> and never call \<^verbatim>\<open>normalize\<close>; \<open>007\<close> gives the digits 7, 0, 0 from the least
  significant one, \<open>0\<close> gives the one digit 0, and neither is normalized. The value of
  \<open>007\<close> is not \<^verbatim>\<open>==\<close> to \<open>BigInteger(7)\<close>.
\<close>

theorem text_constructor_keeps_leading_zeros:
  "BigInteger_string ''007'' = \<lparr>m_sign = POSITIVE, m_data = ''700''\<rparr>
   \<and> BigInteger_string ''0'' = \<lparr>m_sign = POSITIVE, m_data = ''0''\<rparr>
   \<and> \<not> normalized (BigInteger_string ''007'')
   \<and> \<not> normalized (BigInteger_string ''0'')
   \<and> \<not> normalized (BigInteger_cstr ''007'')
   \<and> \<not> op_eq (BigInteger_string ''007'') (BigInteger_int 7)"
  by code_simp

text \<open>
  C7. The claim: \<open>a >= b\<close> holds iff \<open>a > b\<close> or \<open>a == b\<close>. The code:
  \<^verbatim>\<open>operator>=\<close> returns \<^verbatim>\<open>(lhs == rhs) || (rhs > rhs)\<close>, so for \<open>BigInteger(5)\<close> and
  \<open>BigInteger(3)\<close> it is false although \<^verbatim>\<open>operator>\<close> is true.
\<close>

theorem greater_but_not_greater_equal:
  "op_gt (BigInteger_int 5) (BigInteger_int 3)
   \<and> \<not> op_ge (BigInteger_int 5) (BigInteger_int 3)
   \<and> op_le (BigInteger_int 3) (BigInteger_int 5)"
  by code_simp

text \<open>
  C8. The claim: rendering \<open>BigInteger(n)\<close> gives the decimal text of \<open>n\<close> for every
  native integer, the most negative one too. The code: for \<open>n = -2147483648\<close> the
  negation \<^verbatim>\<open>num *= -1\<close> overflows; with the wrap-around \<open>num\<close> stays negative, the
  remainders are -8, -4, -6, ..., and the characters pushed are \<open>'0' - 8\<close>,
  \<open>'0' - 4\<close>, ...: the rendering is not \<open>-2147483648\<close>. For \<open>n = -2147483647\<close> it is
  the decimal text.
\<close>

theorem most_negative_int_renders_wrong:
  "to_string (BigInteger_int (- 2147483648)) = ''-./,),(-*,(''
   \<and> to_string (BigInteger_int (- 2147483647)) = ''-2147483647''"
  by code_simp

text \<open>
  C9. For every object whose digits are in 0..9 and every native integer \<open>num\<close> with
  \<open>0 < num \<le> 10\<close>, \<^verbatim>\<open>a *= num\<close> returns (with any depth of calls allowed, the fast path
  calls no operator); the numeric value of the result is \<open>num\<close> times the numeric value
  of \<open>a\<close>, the sign is the sign of \<open>a\<close>, and every digit of the result is in 0..9. This
  includes \<open>num = 10\<close>: the carry never exceeds 9, and the one \<^verbatim>\<open>push_digit(carry)\<close>
  after the loop appends all that is left.
\<close>

theorem scalar_fast_path_correct:
  assumes "digits_in_range this" and "0 < num" and "num \<le> 10"
  shows "\<exists>this'. op_times_assign_int (Suc n) this num = Some (Inr this')
         \<and> numeric_value this' = num * numeric_value this
         \<and> m_sign this' = m_sign this
         \<and> digits_in_range this'"
proof (cases "num = 1")
  case True
  then show ?thesis
    using assms(1) by (simp add: op_times_assign_int_def)
next
  case False
  then have "op_times_assign_int (Suc n) this num = Some (scalar_digits this num)"
    using assms(2,3) by (simp add: op_times_assign_int_def BASE_def)
  then show ?thesis
    using scalar_digits_correct [OF assms] by auto
qed


theorem scalar_fast_path_correct_witness:
  "digits_in_range (BigInteger_int (- 999)) \<and> (0::int) < 10 \<and> (10::int) \<le> 10
   \<and> op_times_assign_int (Suc 0) (BigInteger_int (- 999)) 10
        = Some (Inr \<lparr>m_sign = NEGATIVE, m_data = ''0999''\<rparr>)
   \<and> (\<exists>this'. op_times_assign_int (Suc 0) (BigInteger_int (- 999)) 10 = Some (Inr this')
         \<and> numeric_value this' = 10 * numeric_value (BigInteger_int (- 999))
         \<and> m_sign this' = m_sign (BigInteger_int (- 999))
         \<and> digits_in_range this')"
proof -
  have h1: "digits_in_range (BigInteger_int (- 999))"
    by code_simp
  have h2: "(0::int) < 10" and h3: "(10::int) \<le> 10"
    by simp_all
  have run: "op_times_assign_int (Suc 0) (BigInteger_int (- 999)) 10
        = Some (Inr \<lparr>m_sign = NEGATIVE, m_data = ''0999''\<rparr>)"
    by code_simp
  show ?thesis
    using scalar_fast_path_correct [OF h1 h2 h3, of 0] h1 run by simp
qed

text \<open>
  C10. \<^verbatim>\<open>get_digit\<close> returns 0 for every index that is negative or at least the stored
  length; \<^verbatim>\<open>change_digit\<close> at such an index fails with that index; and no public
  arithmetic operation, compound or binary, on any operands (the object itself
  included) and with any depth of calls allowed, ends in that failure.
\<close>

theorem write_failure_unreachable:
  "(pos < 0 \<or> count this \<le> pos \<longrightarrow> get_digit this pos = 0)
   \<and> (pos < 0 \<or> count this \<le> pos \<longrightarrow>
        change_digit this pos val = Inl (Invalid_position pos))
   \<and> \<not> throws (op_plus_assign n this rhs)
   \<and> \<not> throws (op_minus_assign n this rhs)
   \<and> \<not> throws (op_times_assign n this rhs)
   \<and> \<not> throws (op_times_assign_int n this num)
   \<and> \<not> throws (op_plus n this b)
   \<and> \<not> throws (op_minus n this b)
   \<and> \<not> throws (op_times n this b)
   \<and> \<not> throws (op_times_int n this num)"
proof -
  have "pos < 0 \<or> count this \<le> pos \<longrightarrow> get_digit this pos = 0"
    by (auto simp: get_digit_def)
  moreover have "pos < 0 \<or> count this \<le> pos \<longrightarrow>
      change_digit this pos val = Inl (Invalid_position pos)"
    by (auto simp: change_digit_def)
  moreover have "\<not> throws (op_plus_assign n this rhs)"
    by (cases rhs) (simp_all add: op_plus_assign_def operators_no_throw)
  moreover have "\<not> throws (op_minus_assign n this rhs)"
    by (cases rhs) (simp_all add: op_minus_assign_def operators_no_throw)
  moreover have "\<not> throws (op_times_assign n this rhs)"
    by (cases rhs) (simp_all add: op_times_assign_def operators_no_throw)
  ultimately show ?thesis
    by (simp add: op_times_assign_int_def op_plus_def op_minus_def op_times_def
        op_times_int_def operators_no_throw)
qed

theorem write_failure_unreachable_witness:
  "((5::int) < 0 \<or> count (BigInteger_int 12) \<le> 5)
   \<and> get_digit (BigInteger_int 12) 5 = 0
   \<and> change_digit (BigInteger_int 12) 5 3 = Inl (Invalid_position 5)
   \<and> op_plus_assign 2 (BigInteger_int 12) This
        = Some (Inr \<lparr>m_sign = POSITIVE, m_data = ''42''\<rparr>)
   \<and> \<not> throws (op_plus_assign 2 (BigInteger_int 12) This)
   \<and> op_minus 2 (BigInteger_int 12) (BigInteger_int 345)
        = Some (Inr \<lparr>m_sign = NEGATIVE, m_data = ''333''\<rparr>)
   \<and> \<not> throws (op_minus 2 (BigInteger_int 12) (BigInteger_int 345))"
proof -
  have h: "(5::int) < 0 \<or> count (BigInteger_int 12) \<le> 5"
    by code_simp
  have r1: "op_plus_assign 2 (BigInteger_int 12) This
        = Some (Inr \<lparr>m_sign = POSITIVE, m_data = ''42''\<rparr>)"
    by code_simp
  have r2: "op_minus 2 (BigInteger_int 12) (BigInteger_int 345)
        = Some (Inr \<lparr>m_sign = NEGATIVE, m_data = ''333''\<rparr>)"
    by code_simp
  show ?thesis
    using write_failure_unreachable
      [where pos = 5 and this = "BigInteger_int 12" and val = 3 and n = 2 and rhs = This
         and b = "BigInteger_int 345"]
      h r1 r2
    by simp
qed

end
